theory Spec2Isabelle
  imports
    Main
    "HOL-Library.Multiset"
    "HOL-Library.Sublist"
    "HOL-Library.Char_ord"
    "HOL-Library.List_Lexorder"
begin

section \<open>Chunk distribution by bin packing (bin/calculate-optimal-chunks.py)\<close>

text \<open>
  Conventions of the embedding.
  \<^item> A Python \<open>str\<close> is a \<open>string\<close>; a \<open>char\<close> stands for a code point below 256, and
    strings are compared lexicographically by code point, as Python compares them.
  \<^item> A weight is an \<open>int\<close> (Python's unbounded integers). A JSON number with a fraction
    is a Python float and lies outside this model.
  \<^item> An exception is a value: a function that can raise returns \<open>py_exception + 'a\<close>,
    with \<open>Inl\<close> for the exception.
  \<^item> What the program reads from its environment (the command line conversion
    \<open>int()\<close>, \<open>open\<close> with \<open>json.load\<close>, the directory walk, the text of a spec file)
    is a field of the record \<open>world\<close>.
\<close>

subsection \<open>Values, exceptions, diagnostics\<close>

type_synonym item = "string \<times> int"

type_synonym packing = "item list list \<times> int list"

datatype py_exception =
  FileNotFoundError | JSONDecodeError | PermissionError | UnicodeDecodeError
  | AttributeError | TypeError | ValueError | IndexError | OverflowError

text \<open>
  The value \<open>json.load\<close> returns. A \<open>JObject\<close> lists the entries of the parsed \<open>dict\<close>
  (whose keys are distinct); \<open>map_of\<close> looks a key up.
\<close>

datatype json =
  JNull | JBool bool | JNum int | JStr string
  | JArray "json list" | JObject "(string \<times> json) list"

text \<open>What \<open>open(timing_file)\<close> followed by \<open>json.load\<close> does.\<close>

datatype load_event = Raised py_exception | Returned json

text \<open>
  A spec file as \<open>calculate_static_weight\<close> meets it: absent (\<open>exists()\<close> is false),
  present but failing in \<open>open\<close> or \<open>readlines\<close>, or present with the lines that
  \<open>readlines\<close> returns.
\<close>

datatype file_state = Missing | Unreadable | Lines "string list"

text \<open>
  The messages written to the error stream, by kind and arguments. The text of a
  \<open>ChunkLine\<close> also carries a percentage computed in floating point, which is left out.
\<close>

datatype diag =
  UsageMsg | ExampleMsg | ChunkIndexMsg int | NoSpecFilesMsg
  | LoadErrorMsg py_exception | WeightWarning string | StaticNotice nat
  | DistributionHeader | ChunkLine nat int nat | Traceback py_exception

datatype fn_call =
  LoadTimings string | GetAllSpecFiles | CalculateStaticWeight string | BinPackingFfd

text \<open>
  A run is observed as its exit status and the sequence of its events: a line on the
  primary stream, a message on the error stream, or a call of one of the program's
  functions by \<open>main\<close>.
\<close>

datatype event = Out string | Err diag | Call fn_call

record run =
  exit_status :: int
  trace :: "event list"

record world =
  int_of :: "string \<Rightarrow> int option"
  json_load :: "string \<Rightarrow> load_event"
  spec_dir_exists :: bool
  rglob :: "string list"
  file_at :: "string \<Rightarrow> file_state"

fun out_of :: "event \<Rightarrow> string list" where
  "out_of (Out s) = [s]"
| "out_of (Err d) = []"
| "out_of (Call c) = []"

fun err_of :: "event \<Rightarrow> diag list" where
  "err_of (Out s) = []"
| "err_of (Err d) = [d]"
| "err_of (Call c) = []"

fun call_of :: "event \<Rightarrow> fn_call list" where
  "call_of (Out s) = []"
| "call_of (Err d) = []"
| "call_of (Call c) = [c]"

definition stdout :: "run \<Rightarrow> string list" where
  "stdout r = concat (map out_of (trace r))"

definition stderr :: "run \<Rightarrow> diag list" where
  "stderr r = concat (map err_of (trace r))"

definition calls :: "run \<Rightarrow> fn_call list" where
  "calls r = concat (map call_of (trace r))"

text \<open>An uncaught exception: the interpreter prints a traceback and exits with status 1.\<close>

definition crash :: "py_exception \<Rightarrow> event list \<Rightarrow> run" where
  "crash e tr = \<lparr>exit_status = 1, trace = tr @ [Err (Traceback e)]\<rparr>"

subsection \<open>\<open>load_timings\<close>\<close>

text \<open>
  \<open>except (FileNotFoundError, json.JSONDecodeError)\<close> catches these two and returns
  \<open>{}\<close> after a message; any other exception propagates. \<open>data.get\<close> exists on a
  \<open>dict\<close> only: on any other JSON value the attribute lookup raises \<open>AttributeError\<close>,
  outside what the handler catches.
\<close>

definition load_timings :: "world \<Rightarrow> string \<Rightarrow> py_exception + (json \<times> diag list)" where
  "load_timings w timing_file =
     (case json_load w timing_file of
        Raised e \<Rightarrow>
          if e = FileNotFoundError \<or> e = JSONDecodeError
          then Inr (JObject [], [LoadErrorMsg e])
          else Inl e
      | Returned data \<Rightarrow>
          (case data of
             JObject kv \<Rightarrow>
               Inr (case map_of kv ''timings'' of None \<Rightarrow> JObject [] | Some v \<Rightarrow> v, [])
           | _ \<Rightarrow> Inl AttributeError))"

subsection \<open>\<open>calculate_static_weight\<close>\<close>

text \<open>The code points below 256 that \<open>str.strip()\<close> removes.\<close>

definition is_space :: "char \<Rightarrow> bool" where
  "is_space c =
     (let n = (of_char c :: nat)
      in (9 \<le> n \<and> n \<le> 13) \<or> (28 \<le> n \<and> n \<le> 32) \<or> n = 133 \<or> n = 160)"

definition strip :: "string \<Rightarrow> string" where
  "strip s = rev (dropWhile is_space (rev (dropWhile is_space s)))"

definition startswith :: "string \<Rightarrow> string \<Rightarrow> bool" where
  "startswith s p = (take (length p) s = p)"

definition is_test_block :: "string \<Rightarrow> bool" where
  "is_test_block line =
     (let t = strip line
      in startswith t ''It '' \<or> startswith t ''Describe '' \<or> startswith t ''Context '')"

definition calculate_static_weight :: "world \<Rightarrow> string \<Rightarrow> int \<times> diag list" where
  "calculate_static_weight w spec_file =
     (case file_at w spec_file of
        Missing \<Rightarrow> (100, [])
      | Unreadable \<Rightarrow> (100, [WeightWarning spec_file])
      | Lines lines \<Rightarrow>
          (let line_count = int (length lines);
               test_blocks = int (length (filter is_test_block lines))
           in (line_count + test_blocks * 10, [])))"

subsection \<open>\<open>get_all_spec_files\<close>\<close>

text \<open>
  \<open>rglob w\<close> is what the directory walk yields, as paths relative to the project root,
  in whatever order the file system enumerates them; \<open>sorted\<close> orders them.
\<close>

definition get_all_spec_files :: "world \<Rightarrow> string list" where
  "get_all_spec_files w = (if \<not> spec_dir_exists w then [] else sort (rglob w))"

subsection \<open>\<open>bin_packing_ffd\<close>\<close>

text \<open>
  \<open>sorted(xs, key=k, reverse=True)\<close>: CPython reverses the list, sorts it with its
  stable sort, and reverses the result.
\<close>

definition sorted_reverse :: "('a \<Rightarrow> 'k::linorder) \<Rightarrow> 'a list \<Rightarrow> 'a list" where
  "sorted_reverse key xs = rev (sort_key key (rev xs))"

text \<open>\<open>min\<close> of a list: \<open>ValueError\<close> on the empty list, else the first least element.\<close>

fun py_min :: "int list \<Rightarrow> py_exception + int" where
  "py_min [] = Inl ValueError"
| "py_min (x # xs) = Inr (fold (\<lambda>y m. if y < m then y else m) xs x)"

text \<open>\<open>list.index\<close>: the first position holding the value, \<open>ValueError\<close> when there is none.\<close>

fun py_index :: "int list \<Rightarrow> int \<Rightarrow> py_exception + nat" where
  "py_index [] v = Inl ValueError"
| "py_index (x # xs) v =
     (if x = v then Inr 0
      else (case py_index xs v of Inl e \<Rightarrow> Inl e | Inr i \<Rightarrow> Inr (Suc i)))"

text \<open>One iteration of the loop over \<open>sorted_items\<close>.\<close>

definition place_item :: "item \<Rightarrow> packing \<Rightarrow> py_exception + packing" where
  "place_item it st =
     (case st of (bins, bin_weights) \<Rightarrow>
        (case py_min bin_weights of
           Inl e \<Rightarrow> Inl e
         | Inr m \<Rightarrow>
             (case py_index bin_weights m of
                Inl e \<Rightarrow> Inl e
              | Inr min_idx \<Rightarrow>
                  if min_idx < length bins
                  then Inr (bins[min_idx := bins ! min_idx @ [it]],
                            bin_weights[min_idx := bin_weights ! min_idx + snd it])
                  else Inl IndexError)))"

fun pack_loop :: "item list \<Rightarrow> packing \<Rightarrow> py_exception + packing" where
  "pack_loop [] st = Inr st"
| "pack_loop (it # its) st =
     (case place_item it st of Inl e \<Rightarrow> Inl e | Inr st' \<Rightarrow> pack_loop its st')"

definition bin_packing_ffd :: "item list \<Rightarrow> int \<Rightarrow> py_exception + packing" where
  "bin_packing_ffd items num_bins =
     (let sorted_items = sorted_reverse snd items;
          bins = replicate (nat num_bins) [];
          bin_weights = replicate (nat num_bins) 0
      in pack_loop sorted_items (bins, bin_weights))"

subsection \<open>\<open>main\<close>\<close>

text \<open>\<open>s in t\<close> on two strings: \<open>s\<close> occurs in \<open>t\<close> as a contiguous piece.\<close>

fun str_contains :: "string \<Rightarrow> string \<Rightarrow> bool" where
  "str_contains [] s = (s = [])"
| "str_contains (c # cs) s = (take (length s) (c # cs) = s \<or> str_contains cs s)"

text \<open>
  The test \<open>spec_file in timings and timings[spec_file] > 0\<close> and, when it holds, the
  weight \<open>timings[spec_file]\<close>. \<open>Some x\<close>: the timing \<open>x\<close> is used; \<open>None\<close>: the
  static estimate is. \<open>timings\<close> is whatever \<open>load_timings\<close> returned: on a value
  that is not a \<open>dict\<close> of numbers Python raises \<open>TypeError\<close> where the operation is
  not defined (\<open>True\<close> counts as 1).
\<close>

definition timing_weight :: "json \<Rightarrow> string \<Rightarrow> py_exception + int option" where
  "timing_weight timings spec_file =
     (case timings of
        JObject kv \<Rightarrow>
          (case map_of kv spec_file of
             None \<Rightarrow> Inr None
           | Some v \<Rightarrow>
               (case v of
                  JNum x \<Rightarrow> Inr (if x > 0 then Some x else None)
                | JBool b \<Rightarrow> Inr (if b then Some 1 else None)
                | _ \<Rightarrow> Inl TypeError))
      | JArray xs \<Rightarrow> if JStr spec_file \<in> set xs then Inl TypeError else Inr None
      | JStr s \<Rightarrow> if str_contains s spec_file then Inl TypeError else Inr None
      | _ \<Rightarrow> Inl TypeError)"

text \<open>
  The loop that builds \<open>items\<close> and \<open>using_static\<close>, with the events so far as a third
  accumulator; an exception leaves the events written before it.
\<close>

fun build_items ::
  "world \<Rightarrow> json \<Rightarrow> string list \<Rightarrow> item list \<Rightarrow> string list \<Rightarrow> event list
     \<Rightarrow> (py_exception + item list \<times> string list) \<times> event list" where
  "build_items w timings [] items using_static tr = (Inr (items, using_static), tr)"
| "build_items w timings (spec_file # rest) items using_static tr =
     (case timing_weight timings spec_file of
        Inl e \<Rightarrow> (Inl e, tr)
      | Inr (Some weight) \<Rightarrow>
          build_items w timings rest (items @ [(spec_file, weight)]) using_static tr
      | Inr None \<Rightarrow>
          (case calculate_static_weight w spec_file of
             (weight, ds) \<Rightarrow>
               build_items w timings rest (items @ [(spec_file, weight)])
                 (using_static @ [spec_file])
                 (tr @ [Call (CalculateStaticWeight spec_file)] @ map Err ds)))"

text \<open>
  Converting an integer to a float raises \<open>OverflowError\<close> from \<open>2^1024 - 2^970\<close> on
  (the value that rounds to \<open>2^1024\<close>); so does a true division of integers whose
  quotient reaches it.
\<close>

definition float_overflows :: "int \<Rightarrow> bool" where
  "float_overflows x = (2 ^ 1024 - 2 ^ 970 \<le> \<bar>x\<bar>)"

text \<open>
  The loop printing one line per chunk: \<open>weight - avg_weight\<close> and the format
  \<open>:.1f\<close> convert the weight to a float.
\<close>

fun report_lines :: "nat \<Rightarrow> (item list \<times> int) list \<Rightarrow> event list
    \<Rightarrow> (py_exception + unit) \<times> event list" where
  "report_lines i [] tr = (Inr (), tr)"
| "report_lines i ((bin_items, weight) # rest) tr =
     (if float_overflows weight then (Inl OverflowError, tr)
      else report_lines (Suc i) rest (tr @ [Err (ChunkLine i weight (length bin_items))]))"

definition report :: "item list list \<Rightarrow> int list \<Rightarrow> int \<Rightarrow> event list
    \<Rightarrow> (py_exception + unit) \<times> event list" where
  "report bins bin_weights num_chunks tr =
     (let total_weight = sum_list bin_weights
      in if num_chunks > 0 \<and> (2 ^ 1024 - 2 ^ 970) * num_chunks \<le> \<bar>total_weight\<bar>
         then (Inl OverflowError, tr)
         else report_lines 0 (zip bins bin_weights) (tr @ [Err DistributionHeader]))"

text \<open>\<open>' '.join(names)\<close>\<close>

fun join_space :: "string list \<Rightarrow> string" where
  "join_space [] = []"
| "join_space [x] = x"
| "join_space (x # y # ys) = x @ '' '' @ join_space (y # ys)"

text \<open>\<open>main\<close> from the loading of the timings on, with the three arguments converted.\<close>

definition main_body :: "world \<Rightarrow> string \<Rightarrow> int \<Rightarrow> int \<Rightarrow> run" where
  "main_body w timing_file num_chunks chunk_index =
     (let tr0 = [Call (LoadTimings timing_file)]
      in case load_timings w timing_file of
           Inl e \<Rightarrow> crash e tr0
         | Inr (timings, ds) \<Rightarrow>
             (let tr1 = tr0 @ map Err ds @ [Call GetAllSpecFiles];
                  all_spec_files = get_all_spec_files w
              in if all_spec_files = []
                 then \<lparr>exit_status = 1, trace = tr1 @ [Err NoSpecFilesMsg]\<rparr>
                 else
                   (case build_items w timings all_spec_files [] [] tr1 of
                      (Inl e, tr2) \<Rightarrow> crash e tr2
                    | (Inr (items, using_static), tr2) \<Rightarrow>
                        (let tr3 = tr2
                               @ (if using_static \<noteq> []
                                  then [Err (StaticNotice (length using_static))] else [])
                               @ [Call BinPackingFfd]
                         in case bin_packing_ffd items num_chunks of
                              Inl e \<Rightarrow> crash e tr3
                            | Inr (bins, bin_weights) \<Rightarrow>
                                (case report bins bin_weights num_chunks tr3 of
                                   (Inl e, tr4) \<Rightarrow> crash e tr4
                                 | (Inr u, tr4) \<Rightarrow>
                                     if nat chunk_index < length bins
                                     then
                                       (let chunk_files = bins ! nat chunk_index
                                        in \<lparr>exit_status = 0,
                                            trace = tr4 @
                                              [Out (if chunk_files \<noteq> []
                                                    then join_space (map fst chunk_files)
                                                    else [])]\<rparr>)
                                     else crash IndexError tr4)))))"

definition main :: "world \<Rightarrow> string list \<Rightarrow> run" where
  "main w argv =
     (if length argv \<noteq> 4
      then \<lparr>exit_status = 1, trace = [Err UsageMsg, Err ExampleMsg]\<rparr>
      else
        (case int_of w (argv ! 2) of
           None \<Rightarrow> crash ValueError []
         | Some num_chunks \<Rightarrow>
             (case int_of w (argv ! 3) of
                None \<Rightarrow> crash ValueError []
              | Some chunk_index \<Rightarrow>
                  if chunk_index < 0 \<or> chunk_index \<ge> num_chunks
                  then \<lparr>exit_status = 1, trace = [Err (ChunkIndexMsg (num_chunks - 1))]\<rparr>
                  else main_body w (argv ! 1) num_chunks chunk_index)))"

subsection \<open>The packing as the specification words it\<close>


text \<open>
  \<open>sorted_items\<close> is \<open>items\<close> sorted by weight in descending order, ties kept in
  their original relative order: the same items, no weight before a larger one, and
  the items of each weight in the order they have in \<open>items\<close>.
\<close>

definition spec_stable_desc :: "item list \<Rightarrow> item list \<Rightarrow> bool" where
  "spec_stable_desc items sorted_items \<longleftrightarrow>
     mset sorted_items = mset items
     \<and> sorted_wrt (\<lambda>x y. snd x \<ge> snd y) sorted_items
     \<and> (\<forall>w. filter (\<lambda>x. snd x = w) sorted_items = filter (\<lambda>x. snd x = w) items)"

text \<open>
  Bin \<open>i\<close> is the bin to fill: its accumulated weight is minimal, and it is the first
  such bin (every bin before it is strictly heavier).
\<close>

definition spec_first_lightest :: "int list \<Rightarrow> nat \<Rightarrow> bool" where
  "spec_first_lightest ws i \<longleftrightarrow> i < length ws \<and> (\<forall>j<length ws. ws ! i \<le> ws ! j) \<and> (\<forall>j<i. ws ! i < ws ! j)"

text \<open>
  Processing the items in order: each goes to the first bin of minimal accumulated
  weight, and its weight is added to that bin's total.
\<close>

inductive spec_pack :: "item list \<Rightarrow> packing \<Rightarrow> packing \<Rightarrow> bool" where
  spec_pack_done: "spec_pack [] st st"
| spec_pack_step:
    "spec_first_lightest ws i \<Longrightarrow>
     spec_pack its (bins[i := bins ! i @ [it]], ws[i := ws ! i + snd it]) st' \<Longrightarrow>
     spec_pack (it # its) (bins, ws) st'"

subsection \<open>The example of the specification\<close>

definition example_items :: "item list" where
  "example_items =
     [(''spec/a_spec.sh'', 10), (''spec/b_spec.sh'', 1), (''spec/c_spec.sh'', 100)]"

text \<open>
  A world for the example: the timing file holds timings for \<open>a\<close> and \<open>b\<close>, the
  directory walk finds \<open>c\<close>, \<open>a\<close>, \<open>b\<close> in that order, the file of \<open>c\<close> has 80
  lines of which 2 open a test block, the file of \<open>d\<close> has 50 lines of which 2 do.
\<close>

definition example_world :: world where
  "example_world =
     \<lparr>int_of = (\<lambda>s. if s = ''0'' then Some 0 else if s = ''1'' then Some 1
                    else if s = ''2'' then Some 2 else None),
      json_load = (\<lambda>p. if p = ''timings.json''
          then Returned (JObject [(''timings'',
                 JObject [(''spec/a_spec.sh'', JNum 10), (''spec/b_spec.sh'', JNum 1)])])
          else Raised FileNotFoundError),
      spec_dir_exists = True,
      rglob = [''spec/c_spec.sh'', ''spec/a_spec.sh'', ''spec/b_spec.sh''],
      file_at = (\<lambda>f.
        if f = ''spec/a_spec.sh'' then Lines [''Describe 'a' '', ''End'']
        else if f = ''spec/b_spec.sh'' then Lines [''Describe 'b' '', ''End'']
        else if f = ''spec/c_spec.sh''
          then Lines ([''Describe 'c' '', ''  It 'runs' ''] @ replicate 78 ''  :'')
        else if f = ''spec/d_spec.sh''
          then Lines ([''Context 'd' '', ''  It 'runs' ''] @ replicate 48 ''  :'')
        else Missing)\<rparr>"

text \<open>The same world with the directory walk in another order.\<close>

definition permuted_world :: world where
  "permuted_world =
     example_world\<lparr>rglob := [''spec/b_spec.sh'', ''spec/c_spec.sh'', ''spec/a_spec.sh'']\<rparr>"





section \<open>Properties of the packer\<close>

subsection \<open>\<open>min\<close>, \<open>index\<close> and one placement\<close>


lemma py_min_fold: "fold (\<lambda>y m. if y < m then y else m) xs (x::int) = Min (set (x # xs))"
proof -
  have "(\<lambda>(y::int) m. if y < m then y else m) = min" by (intro ext) (simp add: min_def)
  moreover have "fold min xs x = Min (set (x # xs))" by (rule Min.set_eq_fold[symmetric])
  ultimately show ?thesis by simp
qed

lemma py_min_Inr:
  assumes "ws \<noteq> []"
  shows "\<exists>m. py_min ws = Inr m \<and> m \<in> set ws \<and> (\<forall>x\<in>set ws. m \<le> x)"
proof (cases ws)
  case Nil with assms show ?thesis by simp
next
  case (Cons x xs)
  have "py_min ws = Inr (Min (set ws))" using Cons by (simp add: py_min_fold)
  moreover have "Min (set ws) \<in> set ws" using assms by (intro Min_in) auto
  moreover have "\<forall>y\<in>set ws. Min (set ws) \<le> y" by simp
  ultimately show ?thesis by blast
qed

lemma py_index_Inr:
  "v \<in> set ws \<Longrightarrow> \<exists>i. py_index ws v = Inr i \<and> i < length ws \<and> ws ! i = v \<and> (\<forall>j<i. ws ! j \<noteq> v)"
proof (induction ws)
  case Nil then show ?case by simp
next
  case (Cons x xs)
  show ?case
  proof (cases "x = v")
    case True then show ?thesis by simp
  next
    case False
    with Cons.prems have "v \<in> set xs" by simp
    from Cons.IH[OF this] obtain i where i: "py_index xs v = Inr i" "i < length xs" "xs ! i = v" "\<forall>j<i. xs ! j \<noteq> v" by blast
    have "\<forall>j<Suc i. (x # xs) ! j \<noteq> v"
      using False i(4) by (auto simp: nth_Cons split: nat.splits)
    with i False show ?thesis by simp
  qed
qed

lemma place_item_Inr:
  assumes "length bins = length ws" "ws \<noteq> []"
  shows "\<exists>i. spec_first_lightest ws i \<and>
     place_item it (bins, ws) = Inr (bins[i := bins ! i @ [it]], ws[i := ws ! i + snd it])"
proof -
  from py_min_Inr[OF assms(2)] obtain m where m: "py_min ws = Inr m" "m \<in> set ws" "\<forall>x\<in>set ws. m \<le> x" by blast
  from py_index_Inr[OF m(2)] obtain i where i: "py_index ws m = Inr i" "i < length ws" "ws ! i = m" "\<forall>j<i. ws ! j \<noteq> m" by blast
  have "spec_first_lightest ws i"
    unfolding spec_first_lightest_def using i m(3) by (auto simp: order_less_le dest: nth_mem)
  moreover have "place_item it (bins, ws) = Inr (bins[i := bins ! i @ [it]], ws[i := ws ! i + snd it])"
    using m(1) i(1,2) assms(1) by (simp add: place_item_def)
  ultimately show ?thesis by blast
qed


lemma spec_first_lightest_unique: "spec_first_lightest ws i \<Longrightarrow> spec_first_lightest ws j \<Longrightarrow> i = j"
  unfolding spec_first_lightest_def by (metis linorder_neqE_nat not_less)

lemma py_index_bound: "py_index ws v = Inr i \<Longrightarrow> i < length ws"
  by (induction ws arbitrary: i) (auto split: if_splits sum.splits)

lemma place_item_shape:
  assumes "place_item it (bins, ws) = Inr st'"
  shows "\<exists>i. i < length bins \<and> i < length ws \<and>
           st' = (bins[i := bins ! i @ [it]], ws[i := ws ! i + snd it])"
  using assms
  by (auto simp: place_item_def split: sum.splits if_splits dest: py_index_bound)

lemma mset_concat_update:
  "i < length bins \<Longrightarrow> mset (concat (bins[i := bins ! i @ [it]])) = add_mset it (mset (concat bins))"
proof (induction bins arbitrary: i)
  case Nil then show ?case by simp
next
  case (Cons b bs) then show ?case by (cases i) simp_all
qed



lemma pack_loop_length:
  "pack_loop its (bins, ws) = Inr (bins', ws') \<Longrightarrow> length bins' = length bins \<and> length ws' = length ws"
proof (induction its arbitrary: bins ws)
  case Nil then show ?case by simp
next
  case (Cons it its)
  from Cons.prems obtain st where st: "place_item it (bins, ws) = Inr st" "pack_loop its st = Inr (bins', ws')"
    by (auto split: sum.splits)
  from place_item_shape[OF st(1)] obtain i where
    i: "st = (bins[i := bins ! i @ [it]], ws[i := ws ! i + snd it])" by blast
  from Cons.IH[OF st(2)[unfolded i]] show ?case by simp
qed

lemma pack_loop_mset:
  "pack_loop its (bins, ws) = Inr (bins', ws') \<Longrightarrow>
     mset (concat bins') = mset (concat bins) + mset its"
proof (induction its arbitrary: bins ws)
  case Nil then show ?case by simp
next
  case (Cons it its)
  from Cons.prems obtain st where st: "place_item it (bins, ws) = Inr st" "pack_loop its st = Inr (bins', ws')"
    by (auto split: sum.splits)
  from place_item_shape[OF st(1)] obtain i where
    i: "i < length bins" "st = (bins[i := bins ! i @ [it]], ws[i := ws ! i + snd it])" by blast
  from Cons.IH[OF st(2)[unfolded i(2)]] mset_concat_update[OF i(1), of it]
  show ?case by simp
qed





lemma sorted_reverse_stable_desc: "spec_stable_desc items (sorted_reverse snd items)"
proof -
  have "sorted (map snd (sort_key snd (rev items)))" by (rule sorted_sort_key)
  then have "sorted_wrt (\<lambda>x y. snd x \<le> snd y) (sort_key snd (rev items))"
    by (simp add: sorted_map)
  then have a: "sorted_wrt (\<lambda>x y. snd x \<ge> snd y) (sorted_reverse snd items)"
    by (simp add: sorted_reverse_def sorted_wrt_rev)
  have b: "filter (\<lambda>x. snd x = w) (sorted_reverse snd items) = filter (\<lambda>x. snd x = w) items" for w
  proof -
    have "filter (\<lambda>x. snd x = w) (sorted_reverse snd items)
        = rev (filter (\<lambda>x. snd x = w) (sort_key snd (rev items)))"
      by (simp add: sorted_reverse_def rev_filter)
    also have "\<dots> = rev (filter (\<lambda>x. snd x = w) (rev items))"
      by (simp only: sort_key_stable)
    also have "\<dots> = filter (\<lambda>x. snd x = w) items"
      by (simp add: rev_filter)
    finally show ?thesis .
  qed
  have c: "mset (sorted_reverse snd items) = mset items"
    by (simp add: sorted_reverse_def)
  from a b c show ?thesis unfolding spec_stable_desc_def by blast
qed

lemma stable_desc_unique:
  assumes "spec_stable_desc items s"
  shows "s = sort_key (\<lambda>x. - snd x) items"
proof -
  have m: "mset s = mset items" using assms by (simp add: spec_stable_desc_def)
  have f: "filter (\<lambda>x. - snd k = - snd x) s = filter (\<lambda>x. - snd k = - snd x) items" for k
  proof -
    have "(\<lambda>x::item. - snd k = - snd x) = (\<lambda>x. snd x = snd k)" by auto
    then show ?thesis using assms by (simp add: spec_stable_desc_def)
  qed
  have "sorted_wrt (\<lambda>x y. snd x \<ge> snd y) s" using assms by (simp add: spec_stable_desc_def)
  then have o: "sorted (map (\<lambda>x. - snd x) s)" by (simp add: sorted_map)
  show ?thesis by (rule properties_for_sort_key[symmetric, OF m f o])
qed

lemma pack_loop_spec_pack:
  "length bins = length ws \<Longrightarrow> ws \<noteq> [] \<Longrightarrow>
     \<exists>r. pack_loop its (bins, ws) = Inr r \<and> spec_pack its (bins, ws) r"
proof (induction its arbitrary: bins ws)
  case Nil
  show ?case by (auto intro: spec_pack_done)
next
  case (Cons it its)
  from place_item_Inr[OF Cons.prems, of it] obtain i where
    i: "spec_first_lightest ws i"
       "place_item it (bins, ws) = Inr (bins[i := bins ! i @ [it]], ws[i := ws ! i + snd it])"
    by blast
  have "length (bins[i := bins ! i @ [it]]) = length (ws[i := ws ! i + snd it])"
    using Cons.prems(1) by simp
  moreover have "ws[i := ws ! i + snd it] \<noteq> []" using Cons.prems(2) by simp
  ultimately obtain r where
    r: "pack_loop its (bins[i := bins ! i @ [it]], ws[i := ws ! i + snd it]) = Inr r"
       "spec_pack its (bins[i := bins ! i @ [it]], ws[i := ws ! i + snd it]) r"
    using Cons.IH by blast
  have "pack_loop (it # its) (bins, ws) = Inr r" using i(2) r(1) by simp
  moreover have "spec_pack (it # its) (bins, ws) r" using i(1) r(2) by (rule spec_pack_step)
  ultimately show ?case by blast
qed

lemma spec_pack_pack_loop:
  "spec_pack its st r \<Longrightarrow> length (fst st) = length (snd st) \<Longrightarrow> pack_loop its st = Inr r"
proof (induction rule: spec_pack.induct)
  case (spec_pack_done st)
  show ?case by simp
next
  case (spec_pack_step ws i its bins it st')
  have ne: "ws \<noteq> []" using spec_pack_step.hyps(1) by (auto simp: spec_first_lightest_def)
  have len: "length bins = length ws" using spec_pack_step.prems by simp
  from place_item_Inr[OF len ne, of it] obtain j where
    j: "spec_first_lightest ws j"
       "place_item it (bins, ws) = Inr (bins[j := bins ! j @ [it]], ws[j := ws ! j + snd it])"
    by blast
  have "j = i" using j(1) spec_pack_step.hyps(1) by (rule spec_first_lightest_unique)
  moreover have "pack_loop its (bins[i := bins ! i @ [it]], ws[i := ws ! i + snd it]) = Inr st'"
    using spec_pack_step.IH len by simp
  ultimately show ?case using j(2) by simp
qed


lemma bin_packing_ffd_total:
  assumes "1 \<le> num_bins"
  shows "\<exists>r. bin_packing_ffd items num_bins = Inr r
           \<and> spec_pack (sorted_reverse snd items)
                (replicate (nat num_bins) [], replicate (nat num_bins) 0) r"
proof -
  have "length (replicate (nat num_bins) ([]::item list)) = length (replicate (nat num_bins) (0::int))"
    by simp
  moreover have "replicate (nat num_bins) (0::int) \<noteq> []" using assms by simp
  ultimately show ?thesis
    unfolding bin_packing_ffd_def Let_def by (rule pack_loop_spec_pack)
qed

lemma concat_distinct_index:
  "distinct (concat bins) \<Longrightarrow> i < length bins \<Longrightarrow> j < length bins \<Longrightarrow>
     x \<in> set (bins ! i) \<Longrightarrow> x \<in> set (bins ! j) \<Longrightarrow> i = j"
proof (induction bins arbitrary: i j)
  case Nil then show ?case by simp
next
  case (Cons b bs)
  have tl: "x \<in> set (bs ! k) \<Longrightarrow> k < length bs \<Longrightarrow> x \<in> set (concat bs)" for k
    by (auto intro: nth_mem)
  show ?case
  proof (cases i)
    case i0: 0
    show ?thesis
    proof (cases j)
      case 0
      with i0 show ?thesis by simp
    next
      case (Suc j')
      with i0 Cons.prems tl[of j'] show ?thesis by auto
    qed
  next
    case iS: (Suc i')
    show ?thesis
    proof (cases j)
      case 0
      with iS Cons.prems tl[of i'] show ?thesis by auto
    next
      case (Suc j')
      with iS Cons.prems Cons.IH[of i' j'] show ?thesis by simp
    qed
  qed
qed


section \<open>Properties of \<open>main\<close> and its helpers\<close>

lemma out_of_Err [simp]: "concat (map out_of (map Err ds)) = []"
  by (induction ds) simp_all

lemma call_of_Err [simp]: "concat (map call_of (map Err ds)) = []"
  by (induction ds) simp_all









lemma sort_mset_cong:
  fixes xs ys :: "'a::linorder list"
  assumes "mset xs = mset ys" shows "sort xs = sort ys"
proof (rule properties_for_sort)
  show "mset (sort ys) = mset xs" using assms by simp
  show "sorted (sort ys)" by simp
qed

lemma build_items_file_at:
  "file_at w' = file_at w \<Longrightarrow>
     build_items w' t files items us tr = build_items w t files items us tr"
  by (induction files arbitrary: items us tr)
     (auto simp: calculate_static_weight_def split: sum.splits option.splits)

lemma example_world_files:
  "get_all_spec_files example_world = [''spec/a_spec.sh'', ''spec/b_spec.sh'', ''spec/c_spec.sh'']"
  by (simp add: get_all_spec_files_def example_world_def)

lemma example_world_c:
  "fst (calculate_static_weight example_world ''spec/c_spec.sh'') = 100"
  by (simp add: calculate_static_weight_def example_world_def is_test_block_def strip_def
        startswith_def is_space_def)

lemma example_world_d:
  "file_at example_world ''spec/d_spec.sh''
     = Lines ([''Context 'd' '', ''  It 'runs' ''] @ replicate 48 ''  :'')"
  by (simp add: example_world_def)

lemma example_d_blocks:
  "length (filter is_test_block ([''Context 'd' '', ''  It 'runs' ''] @ replicate 48 ''  :'')) = 2"
  by (simp add: is_test_block_def strip_def startswith_def is_space_def)





section \<open>The claims\<close>

text \<open>
  C1. The bin packer is first-fit-decreasing by least-loaded bin. For every list of
  items and every bin count of at least 1 the packer returns, and its result is the one
  the description fixes: the items are sorted by weight in descending order, ties in
  their original relative order (\<open>spec_stable_desc\<close>), and processed in that order,
  each placed into the first bin of minimal accumulated weight, its weight added to
  that bin's total (\<open>spec_pack\<close>, \<open>spec_first_lightest\<close>). The description fixes
  the sorted list and the result uniquely.
\<close>

theorem bin_packing_ffd_least_loaded:
  assumes "1 \<le> num_bins"
  shows "\<exists>sorted_items result.
      bin_packing_ffd items num_bins = Inr result
    \<and> spec_stable_desc items sorted_items
    \<and> spec_pack sorted_items (replicate (nat num_bins) [], replicate (nat num_bins) 0) result
    \<and> (\<forall>s r. spec_stable_desc items s
           \<longrightarrow> spec_pack s (replicate (nat num_bins) [], replicate (nat num_bins) 0) r
           \<longrightarrow> s = sorted_items \<and> r = result)"
proof -
  let ?init = "(replicate (nat num_bins) ([]::item list), replicate (nat num_bins) (0::int))"
  from bin_packing_ffd_total[OF assms, of items] obtain result where
    res: "bin_packing_ffd items num_bins = Inr result"
         "spec_pack (sorted_reverse snd items) ?init result" by blast
  have st: "spec_stable_desc items (sorted_reverse snd items)" by (rule sorted_reverse_stable_desc)
  have uniq: "s = sorted_reverse snd items \<and> r = result"
    if s: "spec_stable_desc items s" and r: "spec_pack s ?init r" for s r
  proof -
    have eq: "s = sorted_reverse snd items"
      using stable_desc_unique[OF s] stable_desc_unique[OF st] by simp
    have "pack_loop s ?init = Inr r" using spec_pack_pack_loop[OF r] by simp
    with res(1) eq have "r = result" by (simp add: bin_packing_ffd_def)
    with eq show ?thesis by simp
  qed
  from res st uniq show ?thesis by blast
qed

theorem bin_packing_ffd_least_loaded_witness:
  "(1::int) \<le> 2 \<and>
   (\<exists>sorted_items result.
      bin_packing_ffd example_items 2 = Inr result
    \<and> spec_stable_desc example_items sorted_items
    \<and> spec_pack sorted_items (replicate (nat 2) [], replicate (nat 2) 0) result
    \<and> (\<forall>s r. spec_stable_desc example_items s
           \<longrightarrow> spec_pack s (replicate (nat 2) [], replicate (nat 2) 0) r
           \<longrightarrow> s = sorted_items \<and> r = result))"
proof -
  have h: "(1::int) \<le> 2" by simp
  show ?thesis by (rule conjI[OF h bin_packing_ffd_least_loaded[OF h]])
qed

text \<open>
  C2. The bins returned form an exact partition of the input. For every list of items
  and every bin count \<open>N\<close> of at least 1 the packer returns \<open>N\<close> bins (and \<open>N\<close>
  accumulated weights); the bins taken together hold exactly the input items, each as
  often as the input has it; and when the input items are distinct, each of them is
  in exactly one bin.
\<close>

theorem bin_packing_ffd_partition:
  assumes "1 \<le> num_bins"
  shows "\<exists>bins bin_weights.
      bin_packing_ffd items num_bins = Inr (bins, bin_weights)
    \<and> int (length bins) = num_bins
    \<and> int (length bin_weights) = num_bins
    \<and> mset (concat bins) = mset items
    \<and> (distinct items \<longrightarrow> (\<forall>x\<in>set items. \<exists>!i. i < length bins \<and> x \<in> set (bins ! i)))"
proof -
  from bin_packing_ffd_total[OF assms, of items] obtain bins bin_weights where
    res: "bin_packing_ffd items num_bins = Inr (bins, bin_weights)" by force
  then have loop: "pack_loop (sorted_reverse snd items)
      (replicate (nat num_bins) [], replicate (nat num_bins) 0) = Inr (bins, bin_weights)"
    by (simp add: bin_packing_ffd_def)
  from pack_loop_length[OF loop] assms
  have len: "int (length bins) = num_bins" "int (length bin_weights) = num_bins" by simp_all
  from pack_loop_mset[OF loop]
  have ms: "mset (concat bins) = mset items" by (simp add: sorted_reverse_def)
  have one: "\<exists>!i. i < length bins \<and> x \<in> set (bins ! i)"
    if d: "distinct items" and x: "x \<in> set items" for x
  proof -
    have dc: "distinct (concat bins)" using ms d by (metis mset_eq_imp_distinct_iff)
    have "x \<in> set (concat bins)" using ms x by (metis mset_eq_setD)
    then obtain b where "b \<in> set bins" "x \<in> set b" by auto
    then obtain i where i: "i < length bins" "x \<in> set (bins ! i)"
      by (auto simp: in_set_conv_nth)
    show ?thesis
    proof (rule ex1I[of _ i])
      show "i < length bins \<and> x \<in> set (bins ! i)" using i by simp
    next
      fix j assume "j < length bins \<and> x \<in> set (bins ! j)"
      then show "j = i" using concat_distinct_index[OF dc _ i(1) _ i(2), of j] by simp
    qed
  qed
  from res len ms one show ?thesis by blast
qed

theorem bin_packing_ffd_partition_witness:
  "(1::int) \<le> 2 \<and>
   (\<exists>bins bin_weights.
      bin_packing_ffd example_items 2 = Inr (bins, bin_weights)
    \<and> int (length bins) = 2
    \<and> int (length bin_weights) = 2
    \<and> mset (concat bins) = mset example_items
    \<and> (distinct example_items \<longrightarrow>
         (\<forall>x\<in>set example_items. \<exists>!i. i < length bins \<and> x \<in> set (bins ! i))))"
proof -
  have h: "(1::int) \<le> 2" by simp
  show ?thesis by (rule conjI[OF h bin_packing_ffd_partition[OF h]])
qed



text \<open>
  C4. The example of the specification. In every world where the timing file holds
  the timings 10 for \<open>a\<close> and 1 for \<open>b\<close>, discovery returns \<open>[a, b, c]\<close>, the
  static estimate of \<open>c\<close> is 100 and the chunk count is 2: the items are
  \<open>a(10), b(1), c(100)\<close>, with \<open>c\<close> alone on the static weight; sorted in
  descending order they are \<open>c(100), a(10), b(1)\<close>; bin 0 receives \<open>c\<close>, bin 1
  receives \<open>a\<close> and then \<open>b\<close> and ends with weight 11; the run for chunk 0
  prints the identifier of \<open>c\<close>, the run for chunk 1 prints those of \<open>a\<close> and
  \<open>b\<close>, separated by a space, in that order.
\<close>

theorem main_example:
  assumes "int_of w n_arg = Some 2" "int_of w i0 = Some 0" "int_of w i1 = Some 1"
    and "json_load w timing_file = Returned (JObject [(''timings'',
           JObject [(''spec/a_spec.sh'', JNum 10), (''spec/b_spec.sh'', JNum 1)])])"
    and "get_all_spec_files w = [''spec/a_spec.sh'', ''spec/b_spec.sh'', ''spec/c_spec.sh'']"
    and "fst (calculate_static_weight w ''spec/c_spec.sh'') = 100"
  shows "(\<exists>tr'. build_items w
             (JObject [(''spec/a_spec.sh'', JNum 10), (''spec/b_spec.sh'', JNum 1)])
             [''spec/a_spec.sh'', ''spec/b_spec.sh'', ''spec/c_spec.sh''] [] [] tr
           = (Inr (example_items, [''spec/c_spec.sh'']), tr'))
    \<and> sorted_reverse snd example_items
        = [(''spec/c_spec.sh'', 100), (''spec/a_spec.sh'', 10), (''spec/b_spec.sh'', 1)]
    \<and> bin_packing_ffd example_items 2
        = Inr ([[(''spec/c_spec.sh'', 100)], [(''spec/a_spec.sh'', 10), (''spec/b_spec.sh'', 1)]],
               [100, 11])
    \<and> exit_status (main w [prog, timing_file, n_arg, i0]) = 0
    \<and> stdout (main w [prog, timing_file, n_arg, i0]) = [''spec/c_spec.sh'']
    \<and> exit_status (main w [prog, timing_file, n_arg, i1]) = 0
    \<and> stdout (main w [prog, timing_file, n_arg, i1]) = [''spec/a_spec.sh spec/b_spec.sh'']"
proof -
  obtain ds where c: "calculate_static_weight w ''spec/c_spec.sh'' = (100, ds)"
    using assms(6) by (cases "calculate_static_weight w ''spec/c_spec.sh''") simp
  have b: "build_items w
             (JObject [(''spec/a_spec.sh'', JNum 10), (''spec/b_spec.sh'', JNum 1)])
             [''spec/a_spec.sh'', ''spec/b_spec.sh'', ''spec/c_spec.sh''] [] [] tr
           = (Inr (example_items, [''spec/c_spec.sh'']),
              tr @ [Call (CalculateStaticWeight ''spec/c_spec.sh'')] @ map Err ds)" for tr
    using c by (simp add: timing_weight_def example_items_def)
  have s: "sorted_reverse snd example_items
        = [(''spec/c_spec.sh'', 100), (''spec/a_spec.sh'', 10), (''spec/b_spec.sh'', 1)]"
    by (simp add: sorted_reverse_def example_items_def)
  have p: "bin_packing_ffd example_items 2
        = Inr ([[(''spec/c_spec.sh'', 100)], [(''spec/a_spec.sh'', 10), (''spec/b_spec.sh'', 1)]],
               [100, 11])"
    by (simp add: bin_packing_ffd_def s place_item_def eval_nat_numeral)
  have l: "load_timings w timing_file
     = Inr (JObject [(''spec/a_spec.sh'', JNum 10), (''spec/b_spec.sh'', JNum 1)], [])"
    using assms(4) by (simp add: load_timings_def)
  have r: "report [[(''spec/c_spec.sh'', 100)], [(''spec/a_spec.sh'', 10), (''spec/b_spec.sh'', 1)]]
             [100, 11] 2 tr
     = (Inr (), tr @ [Err DistributionHeader, Err (ChunkLine 0 100 1), Err (ChunkLine 1 11 2)])" for tr
    by (simp add: report_def float_overflows_def)
  have m0: "main w [prog, timing_file, n_arg, i0] = main_body w timing_file 2 0"
    using assms(1,2) by (simp add: main_def)
  have m1: "main w [prog, timing_file, n_arg, i1] = main_body w timing_file 2 1"
    using assms(1,3) by (simp add: main_def)
  have e0: "exit_status (main_body w timing_file 2 0) = 0"
    by (simp add: main_body_def l assms(5) b p r del: build_items.simps)
  have e1: "exit_status (main_body w timing_file 2 1) = 0"
    by (simp add: main_body_def l assms(5) b p r del: build_items.simps)
  have o0: "stdout (main_body w timing_file 2 0) = [''spec/c_spec.sh'']"
    by (simp add: main_body_def l assms(5) b p r stdout_def del: build_items.simps)
  have o1: "stdout (main_body w timing_file 2 1) = [''spec/a_spec.sh spec/b_spec.sh'']"
    by (simp add: main_body_def l assms(5) b p r stdout_def del: build_items.simps)
  from b s p e0 e1 o0 o1 show ?thesis unfolding m0 m1 by blast
qed

theorem main_example_witness:
  "int_of example_world ''2'' = Some 2 \<and> int_of example_world ''0'' = Some 0
   \<and> int_of example_world ''1'' = Some 1
   \<and> get_all_spec_files example_world = [''spec/a_spec.sh'', ''spec/b_spec.sh'', ''spec/c_spec.sh'']
   \<and> fst (calculate_static_weight example_world ''spec/c_spec.sh'') = 100
   \<and> stdout (main example_world [''prog'', ''timings.json'', ''2'', ''0'']) = [''spec/c_spec.sh'']
   \<and> stdout (main example_world [''prog'', ''timings.json'', ''2'', ''1''])
       = [''spec/a_spec.sh spec/b_spec.sh'']"
proof -
  have h1: "int_of example_world ''2'' = Some 2" by (simp add: example_world_def)
  have h2: "int_of example_world ''0'' = Some 0" by (simp add: example_world_def)
  have h3: "int_of example_world ''1'' = Some 1" by (simp add: example_world_def)
  have h4: "json_load example_world ''timings.json'' = Returned (JObject [(''timings'',
           JObject [(''spec/a_spec.sh'', JNum 10), (''spec/b_spec.sh'', JNum 1)])])"
    by (simp add: example_world_def)
  note t = main_example[OF h1 h2 h3 h4 example_world_files example_world_c, of "[]" "''prog''"]
  from h1 h2 h3 example_world_files example_world_c t show ?thesis by blast
qed

text \<open>
  C5. The static weight estimator. For a file that exists and is read, the weight is
  the number of its lines plus 10 for each test block, a test block being a line whose
  stripped content starts with one of the three prefixes \<open>It\<close>, \<open>Describe\<close>,
  \<open>Context\<close> (each followed by a space); a file of 50 lines of which 2 open a
  block weighs 70; a file that does not exist weighs 100, and the estimator returns
  that value without a message.
\<close>

theorem calculate_static_weight_formula:
  "(file_at w f = Lines ls \<longrightarrow>
      calculate_static_weight w f
        = (int (length ls) + 10 * int (length (filter is_test_block ls)), []))
   \<and> (file_at w f = Lines ls \<and> length ls = 50 \<and> length (filter is_test_block ls) = 2 \<longrightarrow>
      fst (calculate_static_weight w f) = 70)
   \<and> (file_at w g = Missing \<longrightarrow> calculate_static_weight w g = (100, []))
   \<and> (is_test_block l \<longleftrightarrow>
        (\<exists>p\<in>{''It '', ''Describe '', ''Context ''}. startswith (strip l) p))"
  by (auto simp: calculate_static_weight_def is_test_block_def Let_def)

theorem calculate_static_weight_formula_witness:
  "file_at example_world ''spec/d_spec.sh''
     = Lines ([''Context 'd' '', ''  It 'runs' ''] @ replicate 48 ''  :'')
   \<and> length ([''Context 'd' '', ''  It 'runs' ''] @ replicate 48 ''  :'') = 50
   \<and> length (filter is_test_block ([''Context 'd' '', ''  It 'runs' ''] @ replicate 48 ''  :'')) = 2
   \<and> fst (calculate_static_weight example_world ''spec/d_spec.sh'') = 70
   \<and> file_at example_world ''spec/none_spec.sh'' = Missing
   \<and> calculate_static_weight example_world ''spec/none_spec.sh'' = (100, [])
   \<and> is_test_block ''  It 'runs' ''"
proof -
  have len: "length ([''Context 'd' '', ''  It 'runs' ''] @ replicate 48 ''  :'') = 50" by simp
  have mis: "file_at example_world ''spec/none_spec.sh'' = Missing"
    by (simp add: example_world_def)
  have pre: "\<exists>p\<in>{''It '', ''Describe '', ''Context ''}. startswith (strip ''  It 'runs' '') p"
    by (simp add: strip_def startswith_def is_space_def)
  note t = calculate_static_weight_formula[of example_world "''spec/d_spec.sh''"
      "[''Context 'd' '', ''  It 'runs' ''] @ replicate 48 ''  :''" "''spec/none_spec.sh''"
      "''  It 'runs' ''"]
  from t example_world_d len example_d_blocks mis pre show ?thesis by blast
qed

text \<open>
  C6. Packing is deterministic. The packer is a function of the item list and the
  chunk count; the one input of a run that can vary between two invocations on the
  same files is the order in which the directory walk enumerates them, and sorting
  removes it. Two runs in worlds with the same timing data, the same file contents and
  the same discovered files, enumerated in any order, and with the same command line,
  discover the same list, build the same items and are the same run: the same
  accumulated weights reported, the same line printed, the same exit status.
\<close>

theorem main_deterministic:
  assumes "int_of w' = int_of w" "json_load w' = json_load w" "file_at w' = file_at w"
    and "spec_dir_exists w' = spec_dir_exists w" "mset (rglob w') = mset (rglob w)"
  shows "get_all_spec_files w' = get_all_spec_files w
    \<and> (\<forall>t tr. build_items w' t (get_all_spec_files w') [] [] tr
               = build_items w t (get_all_spec_files w) [] [] tr)
    \<and> main w' argv = main w argv"
proof -
  have g: "get_all_spec_files w' = get_all_spec_files w"
    using assms(4) sort_mset_cong[OF assms(5)] by (simp add: get_all_spec_files_def)
  have b: "build_items w' t files items us tr = build_items w t files items us tr"
    for t files items us tr
    using assms(3) by (rule build_items_file_at)
  have l: "load_timings w' p = load_timings w p" for p
    using assms(2) by (simp add: load_timings_def)
  have "main_body w' p n i = main_body w p n i" for p n i
    by (simp add: main_body_def g b l Let_def cong: sum.case_cong prod.case_cong if_cong)
  then have "main w' argv = main w argv"
    using assms(1) by (simp add: main_def cong: option.case_cong if_cong)
  with g b show ?thesis by simp
qed

theorem main_deterministic_witness:
  "mset (rglob permuted_world) = mset (rglob example_world)
   \<and> rglob permuted_world \<noteq> rglob example_world
   \<and> get_all_spec_files permuted_world = get_all_spec_files example_world
   \<and> main permuted_world [''prog'', ''timings.json'', ''2'', ''1'']
       = main example_world [''prog'', ''timings.json'', ''2'', ''1'']"
proof -
  have h1: "int_of permuted_world = int_of example_world" by (simp add: permuted_world_def)
  have h2: "json_load permuted_world = json_load example_world" by (simp add: permuted_world_def)
  have h3: "file_at permuted_world = file_at example_world" by (simp add: permuted_world_def)
  have h4: "spec_dir_exists permuted_world = spec_dir_exists example_world"
    by (simp add: permuted_world_def)
  have h5: "mset (rglob permuted_world) = mset (rglob example_world)"
    by (simp add: permuted_world_def example_world_def)
  have d: "rglob permuted_world \<noteq> rglob example_world"
    by (simp add: permuted_world_def example_world_def)
  note t = main_deterministic[OF h1 h2 h3 h4 h5, of "[''prog'', ''timings.json'', ''2'', ''1'']"]
  from h5 d t show ?thesis by blast
qed

text \<open>
  C7. A chunk index outside \<open>[0, num_chunks)\<close> is rejected first. For every
  invocation with four arguments whose chunk count and chunk index convert to
  integers, if the index is negative or not below the count (as always when the count
  is zero or less), the run exits with status 1, writes the one message about the
  chunk index to the error stream, writes nothing to the primary stream, and calls
  none of the loading, discovery, estimation and packing functions.
\<close>

theorem main_rejects_chunk_index:
  assumes "length argv = 4"
    and "int_of w (argv ! 2) = Some num_chunks" "int_of w (argv ! 3) = Some chunk_index"
    and "num_chunks \<le> 0 \<or> chunk_index < 0 \<or> num_chunks \<le> chunk_index"
  shows "main w argv = \<lparr>exit_status = 1, trace = [Err (ChunkIndexMsg (num_chunks - 1))]\<rparr>
    \<and> exit_status (main w argv) \<noteq> 0
    \<and> stderr (main w argv) = [ChunkIndexMsg (num_chunks - 1)]
    \<and> stdout (main w argv) = []
    \<and> calls (main w argv) = []"
proof -
  have "chunk_index < 0 \<or> num_chunks \<le> chunk_index" using assms(4) by linarith
  then have "main w argv = \<lparr>exit_status = 1, trace = [Err (ChunkIndexMsg (num_chunks - 1))]\<rparr>"
    using assms(1-3) by (simp add: main_def)
  then show ?thesis by (simp add: stderr_def stdout_def calls_def)
qed

theorem main_rejects_chunk_index_witness:
  "length [''prog'', ''timings.json'', ''2'', ''2''] = 4
   \<and> int_of example_world ([''prog'', ''timings.json'', ''2'', ''2''] ! 2) = Some 2
   \<and> int_of example_world ([''prog'', ''timings.json'', ''2'', ''2''] ! 3) = Some 2
   \<and> main example_world [''prog'', ''timings.json'', ''2'', ''2'']
       = \<lparr>exit_status = 1, trace = [Err (ChunkIndexMsg 1)]\<rparr>
   \<and> stdout (main example_world [''prog'', ''timings.json'', ''2'', ''2'']) = []
   \<and> calls (main example_world [''prog'', ''timings.json'', ''2'', ''2'']) = []"
proof -
  have h1: "length [''prog'', ''timings.json'', ''2'', ''2''] = 4" by simp
  have h2: "int_of example_world ([''prog'', ''timings.json'', ''2'', ''2''] ! 2) = Some 2"
    by (simp add: example_world_def)
  have h3: "int_of example_world ([''prog'', ''timings.json'', ''2'', ''2''] ! 3) = Some 2"
    by (simp add: example_world_def)
  have h4: "(2::int) \<le> 0 \<or> (2::int) < 0 \<or> (2::int) \<le> 2" by simp
  from main_rejects_chunk_index[OF h1 h2 h3 h4] h1 h2 h3 show ?thesis
    by (simp add: stdout_def calls_def)
qed








end
